theory Spec2Isabelle
  imports Main "HOL-Library.Log_Nat"
begin

section \<open>Python values\<close>

text \<open>
  A Python \<open>str\<close> is a sequence of Unicode code points; a code point is a natural
  number. \<open>ascii\<close> turns an ASCII literal into such a sequence.
\<close>

type_synonym pystr = "nat list"

definition ascii :: "string \<Rightarrow> pystr" where
  "ascii s = map of_char s"

text \<open>
  A binary64 float: a finite value is a sign (\<open>True\<close> is negative) and a magnitude,
  kept as the rational number it denotes; the magnitude 0 with sign \<open>True\<close> is \<open>-0.0\<close>.
\<close>

datatype double = Finite bool rat | Infinity bool | NaN

text \<open>
  The values a decoded JSON document holds. The service's answer reaches the adapter as
  such values: every prediction entry is a dict from strings to them.
\<close>

datatype pyval =
    PNone
  | PBool bool
  | PInt int
  | PFloat double
  | PStr pystr
  | PList "pyval list"
  | PDict "(pystr \<times> pyval) list"

type_synonym pydict = "pystr \<rightharpoonup> pyval"

datatype exn =
    DeepstackException
  | UnidentifiedImageError
  | NameError pystr
  | KeyError pystr
  | TypeError
  | OverflowError
  | OtherError pystr

section \<open>Float arithmetic\<close>

text \<open>
  Round to nearest, ties to even, on exact rationals. \<open>rnd_mag\<close> rounds a magnitude to
  the nearest binary64 magnitude (53 bits of precision, least exponent \<open>-1074\<close>); \<open>None\<close>
  is overflow.
\<close>

definition round_half_even :: "rat \<Rightarrow> int" where
  "round_half_even x =
     (let f = \<lfloor>x\<rfloor>; d = x - of_int f
      in if d < 1 / 2 then f
         else if 1 / 2 < d then f + 1
         else if even f then f else f + 1)"

definition floor_log2 :: "rat \<Rightarrow> int" where
  "floor_log2 q =
     (let (a, b) = quotient_of q; d = bitlen a - bitlen b
      in if 2 powi d \<le> q then d else d - 1)"

definition ulp_exp :: "rat \<Rightarrow> int" where
  "ulp_exp q = max (- 1074) (floor_log2 q - 52)"

definition rnd_mag :: "rat \<Rightarrow> rat option" where
  "rnd_mag q =
     (if q = 0 then Some 0
      else let u = 2 powi ulp_exp q; r = of_int (round_half_even (q / u)) * u
           in if 2 ^ 1024 \<le> r then None else Some r)"


text \<open>\<open>x * y\<close> on floats.\<close>

fun fmul :: "double \<Rightarrow> double \<Rightarrow> double" where
  "fmul (Finite s p) (Finite t q) =
     (case rnd_mag (p * q) of None \<Rightarrow> Infinity (s \<noteq> t) | Some r \<Rightarrow> Finite (s \<noteq> t) r)"
| "fmul (Finite s p) (Infinity t) = (if p = 0 then NaN else Infinity (s \<noteq> t))"
| "fmul (Infinity s) (Finite t q) = (if q = 0 then NaN else Infinity (s \<noteq> t))"
| "fmul (Infinity s) (Infinity t) = Infinity (s \<noteq> t)"
| "fmul NaN _ = NaN"
| "fmul _ NaN = NaN"

text \<open>An \<open>int\<close> operand of a float operation: converted, or \<open>OverflowError\<close>.\<close>

definition float_of_int :: "int \<Rightarrow> exn + double" where
  "float_of_int i =
     (case rnd_mag (of_int \<bar>i\<bar>) of None \<Rightarrow> Inl OverflowError | Some r \<Rightarrow> Inr (Finite (i < 0) r))"

text \<open>
  \<open>round(x, 2)\<close> on a float: the exact value is rounded to two decimals (ties to even),
  and the decimal is read back as a float; infinities and NaN round to themselves.
\<close>

fun round2 :: "double \<Rightarrow> exn + double" where
  "round2 (Finite s q) =
     (case rnd_mag (of_int (round_half_even (q * 100)) / 100) of
        None \<Rightarrow> Inl OverflowError
      | Some r \<Rightarrow> Inr (Finite s r))"
| "round2 (Infinity s) = Inr (Infinity s)"
| "round2 NaN = Inr NaN"

text \<open>\<open>round(100.0 * v, 2)\<close> for a value \<open>v\<close>: a \<open>TypeError\<close> unless \<open>v\<close> is a number.\<close>

definition hundred :: double where
  "hundred = Finite False 100"

fun confidence_pct :: "pyval \<Rightarrow> exn + double" where
  "confidence_pct (PFloat d) = round2 (fmul hundred d)"
| "confidence_pct (PInt i) =
     (case float_of_int i of Inl e \<Rightarrow> Inl e | Inr d \<Rightarrow> round2 (fmul hundred d))"
| "confidence_pct (PBool b) =
     (case float_of_int (if b then 1 else 0) of Inl e \<Rightarrow> Inl e | Inr d \<Rightarrow> round2 (fmul hundred d))"
| "confidence_pct _ = Inl TypeError"

section \<open>Response parsing\<close>

definition USERID :: pystr where
  "USERID = ascii ''userid''"

definition CONFIDENCE :: pystr where
  "CONFIDENCE = ascii ''confidence''"

definition NAME :: pystr where
  "NAME = ascii ''name''"

text \<open>\<open>ATTR_CONFIDENCE\<close> is imported from the host framework, where it is \<open>"confidence"\<close>.\<close>

definition ATTR_CONFIDENCE :: pystr where
  "ATTR_CONFIDENCE = ascii ''confidence''"

definition UNKNOWN :: pyval where
  "UNKNOWN = PStr (ascii ''unknown'')"

text \<open>
  The body of the loop of \<open>parse_faces\<close> for an entry that has a \<open>userid\<close> other than
  \<open>"unknown"\<close>: the face built from it, or the exception of a missing or non-numeric
  confidence.
\<close>

definition make_face :: "pyval \<Rightarrow> pydict \<Rightarrow> exn + pydict" where
  "make_face uid entry =
     (case entry CONFIDENCE of
        None \<Rightarrow> Inl (KeyError CONFIDENCE)
      | Some c \<Rightarrow>
          (case confidence_pct c of
             Inl e \<Rightarrow> Inl e
           | Inr p \<Rightarrow> Inr (Map.empty(NAME \<mapsto> uid, ATTR_CONFIDENCE \<mapsto> PFloat p))))"

text \<open>
  The loop of \<open>parse_faces\<close>, with the list \<open>faces\<close> built so far: \<open>break\<close> at the first
  entry without a \<open>userid\<close>, \<open>continue\<close> at an \<open>"unknown"\<close> one, append otherwise.
\<close>

fun parse_faces_loop :: "pydict list \<Rightarrow> pydict list \<Rightarrow> exn + pydict list" where
  "parse_faces_loop faces [] = Inr faces"
| "parse_faces_loop faces (entry # rest) =
     (case entry USERID of
        None \<Rightarrow> Inr faces
      | Some uid \<Rightarrow>
          if uid = UNKNOWN then parse_faces_loop faces rest
          else (case make_face uid entry of
                  Inl e \<Rightarrow> Inl e
                | Inr face \<Rightarrow> parse_faces_loop (faces @ [face]) rest))"

definition parse_faces :: "pydict list \<Rightarrow> exn + pydict list" where
  "parse_faces predictions = parse_faces_loop [] predictions"

section \<open>File names\<close>

text \<open>
  \<open>str.strip()\<close> removes the leading and trailing code points that \<open>str.isspace\<close>
  accepts.
\<close>

definition is_space :: "nat \<Rightarrow> bool" where
  "is_space c =
     (c \<in> set [9, 10, 11, 12, 13, 28, 29, 30, 31, 32, 133, 160, 5760, 8232, 8233, 8239, 8287, 12288]
      \<or> (8192 \<le> c \<and> c \<le> 8202))"

definition strip :: "pystr \<Rightarrow> pystr" where
  "strip s = rev (dropWhile is_space (rev (dropWhile is_space s)))"

text \<open>\<open>s.replace(" ", "_")\<close>: code point 32 becomes code point 95.\<close>

definition replace_space :: "pystr \<Rightarrow> pystr" where
  "replace_space s = map (\<lambda>c. if c = 32 then 95 else c) s"

text \<open>
  The class \<open>\w\<close> of a Unicode pattern holds the underscore and the alphanumeric code
  points. Below 128 these are the ASCII letters and digits; above, they come from the
  Unicode database of the interpreter, which is the parameter \<open>ualnum\<close>.
\<close>

definition ascii_alnum :: "nat \<Rightarrow> bool" where
  "ascii_alnum c = ((48 \<le> c \<and> c \<le> 57) \<or> (65 \<le> c \<and> c \<le> 90) \<or> (97 \<le> c \<and> c \<le> 122))"

definition is_word :: "(nat \<Rightarrow> bool) \<Rightarrow> nat \<Rightarrow> bool" where
  "is_word ualnum c = (if c < 128 then ascii_alnum c \<or> c = 95 else ualnum c)"

text \<open>What \<open>[^-\w.]\<close> does not match: the hyphen (45), a word character, the dot (46).\<close>

definition kept :: "(nat \<Rightarrow> bool) \<Rightarrow> nat \<Rightarrow> bool" where
  "kept ualnum c = (c = 45 \<or> is_word ualnum c \<or> c = 46)"

definition get_valid_filename :: "(nat \<Rightarrow> bool) \<Rightarrow> pystr \<Rightarrow> pystr" where
  "get_valid_filename ualnum name = filter (kept ualnum) (replace_space (strip name))"

text \<open>
  \<open>str.lower()\<close>: on an ASCII string the letters A to Z move to a to z; on any other
  string the result comes from the Unicode database, the parameter \<open>ulower\<close>.
\<close>

definition ascii_lower :: "nat \<Rightarrow> nat" where
  "ascii_lower c = (if 65 \<le> c \<and> c \<le> 90 then c + 32 else c)"

definition lower :: "(pystr \<Rightarrow> pystr) \<Rightarrow> pystr \<Rightarrow> pystr" where
  "lower ulower s = (if list_all (\<lambda>c. c < 128) s then map ascii_lower s else ulower s)"

section \<open>Timestamps\<close>

record datetime =
  year :: nat
  month :: nat
  day :: nat
  hour :: nat
  minute :: nat
  second :: nat

definition DATETIME_FORMAT :: pystr where
  "DATETIME_FORMAT = ascii ''%Y-%m-%d_%H-%M-%S''"

text \<open>The decimal digits of a number, and the number padded with zeros to a width.\<close>

fun digits :: "nat \<Rightarrow> pystr" where
  "digits n = (if n < 10 then [48 + n] else digits (n div 10) @ [48 + n mod 10])"

declare digits.simps [simp del]

definition zpad :: "nat \<Rightarrow> nat \<Rightarrow> pystr" where
  "zpad w n = replicate (w - length (digits n)) 48 @ digits n"

text \<open>
  The directives the format uses: \<open>%Y\<close> is the year in four digits, the others are
  fields in two digits. Another directive is left as it stands.
\<close>

definition directive :: "nat \<Rightarrow> datetime \<Rightarrow> pystr" where
  "directive d dt =
     (if d = 89 then zpad 4 (year dt)
      else if d = 109 then zpad 2 (month dt)
      else if d = 100 then zpad 2 (day dt)
      else if d = 72 then zpad 2 (hour dt)
      else if d = 77 then zpad 2 (minute dt)
      else if d = 83 then zpad 2 (second dt)
      else [37, d])"

fun strftime :: "pystr \<Rightarrow> datetime \<Rightarrow> pystr" where
  "strftime (c # d # rest) dt =
     (if c = 37 then directive d dt @ strftime rest dt else c # strftime (d # rest) dt)"
| "strftime [c] dt = [c]"
| "strftime [] dt = []"

section \<open>The adapter\<close>

text \<open>A path is a \<open>Path\<close> object: built from a string, or by the operator \<open>/\<close>.\<close>

datatype path = Path pystr | Div path pystr

text \<open>
  The fields of \<open>FaceClassifyEntity\<close>. \<open>entity_id\<close> is the one the host framework gives
  the entity when it registers it. \<open>matched\<close> holds the dict that the library function
  \<open>get_recognised_faces\<close> returns, as the list of its items. The client object \<open>_dsface\<close>
  is outside: its calls are the environment below.
\<close>

record entity =
  detect_only :: bool
  last_detection :: "pystr option"
  save_file_folder :: "path option"
  save_timestamped_file :: bool
  camera :: pystr
  name :: pystr
  faces :: "pydict list"
  matched :: "(pyval \<times> pyval) list"
  total_faces :: "nat option"
  entity_id :: "pystr option"

text \<open>
  What the adapter calls and does not define: the client of the service, the clock, the
  image library, the host framework, the file system and the Unicode database. A call
  that raises returns the exception. \<open>detect\<close> and \<open>recognise\<close> return the list they
  leave in the client's \<open>predictions\<close>.
\<close>

record 'img env =
  detect :: "nat list \<Rightarrow> exn + pydict list"
  recognise :: "nat list \<Rightarrow> exn + pydict list"
  register_face :: "pystr \<Rightarrow> nat list \<Rightarrow> exn option"
  get_recognised_faces :: "pydict list \<Rightarrow> exn + (pyval \<times> pyval) list"
  now :: datetime
  image_open :: "nat list \<Rightarrow> exn + 'img"
  img_save :: "'img \<Rightarrow> path \<Rightarrow> exn option"
  is_allowed_path :: "pystr \<Rightarrow> bool"
  file_open :: "pystr \<Rightarrow> exn + nat list"
  split_entity_id :: "pystr \<Rightarrow> exn + pystr \<times> pystr"
  ualnum :: "nat \<Rightarrow> bool"
  ulower :: "pystr \<Rightarrow> pystr"

text \<open>What the adapter does to the world, in the order it does it.\<close>

datatype 'img effect =
    Service_call bool "nat list"
  | Log_error exn
  | Log_warning
  | Log_info_taught pystr
  | Log_info_saved path
  | Fire_faces "pydict list" nat
  | File_write path 'img
  | File_open pystr
  | Register_face pystr "nat list"

definition CLASSIFIER :: pystr where
  "CLASSIFIER = ascii ''deepstack_face''"

text \<open>
  \<open>__init__\<close>. The address, the port, the key and the timeout configure the client
  only. A name that is \<open>None\<close> or empty is replaced by one made from the camera's.
\<close>

definition init ::
  "'img env \<Rightarrow> bool \<Rightarrow> path option \<Rightarrow> bool \<Rightarrow> pystr \<Rightarrow> pystr option \<Rightarrow> exn + entity" where
  "init env detect_only' save_file_folder' save_timestamped_file' camera_entity name' =
     (let self = \<lparr> detect_only = detect_only', last_detection = None,
                   save_file_folder = save_file_folder',
                   save_timestamped_file = save_timestamped_file',
                   camera = camera_entity, name = [], faces = [], matched = [],
                   total_faces = None, entity_id = None \<rparr>
      in case name' of
           Some n \<Rightarrow>
             if n \<noteq> [] then Inr (self\<lparr>name := n\<rparr>)
             else (case split_entity_id env camera_entity of
                     Inl e \<Rightarrow> Inl e
                   | Inr (_, camera_name) \<Rightarrow> Inr (self\<lparr>name := CLASSIFIER @ [32] @ camera_name\<rparr>))
         | None \<Rightarrow>
             (case split_entity_id env camera_entity of
                Inl e \<Rightarrow> Inl e
              | Inr (_, camera_name) \<Rightarrow> Inr (self\<lparr>name := CLASSIFIER @ [32] @ camera_name\<rparr>)))"

text \<open>
  The names the module binds: its imports, its constants, its functions and its class.
  A name that is neither here nor a builtin raises \<open>NameError\<close> where it is evaluated.
\<close>

definition module_globals :: "string list" where
  "module_globals =
     [''io'', ''logging'', ''re'', ''time'', ''Path'', ''requests'', ''Image'', ''ImageDraw'',
      ''ds'', ''cv'', ''dt_util'', ''vol'', ''ATTR_CONFIDENCE'', ''CONF_ENTITY_ID'',
      ''CONF_NAME'', ''CONF_SOURCE'', ''DOMAIN'', ''PLATFORM_SCHEMA'',
      ''ImageProcessingFaceEntity'', ''ATTR_ENTITY_ID'', ''ATTR_NAME'', ''CONF_IP_ADDRESS'',
      ''CONF_PORT'', ''split_entity_id'', ''_LOGGER'', ''CONF_API_KEY'', ''CONF_TIMEOUT'',
      ''CONF_DETECT_ONLY'', ''CONF_SAVE_FILE_FOLDER'', ''CONF_SAVE_TIMESTAMPTED_FILE'',
      ''DATETIME_FORMAT'', ''DEFAULT_API_KEY'', ''DEFAULT_TIMEOUT'', ''CLASSIFIER'',
      ''DATA_DEEPSTACK'', ''FILE_PATH'', ''SERVICE_TEACH_FACE'', ''SERVICE_TEACH_SCHEMA'',
      ''get_valid_filename'', ''parse_faces'', ''setup_platform'', ''FaceClassifyEntity'']"

text \<open>The formatted field of an f-string: a string as it is, \<open>None\<close> as \<open>"None"\<close>.\<close>

fun fmt_opt :: "pystr option \<Rightarrow> pystr" where
  "fmt_opt (Some s) = s"
| "fmt_opt None = ascii ''None''"

text \<open>
  \<open>save_image\<close>. The handler \<open>except UnidentifiedImageError\<close> evaluates that name, which
  is no builtin, when the \<open>try\<close> body has raised; the handler matches the exception of
  that class.
\<close>

definition save_image ::
  "'img env \<Rightarrow> entity \<Rightarrow> nat list \<Rightarrow> path \<Rightarrow> 'img effect list \<Rightarrow> 'img effect list \<times> exn option" where
  "save_image env self image_bytes directory tr =
     (case image_open env image_bytes of
        Inl e \<Rightarrow>
          if ''UnidentifiedImageError'' \<in> set module_globals then
            (if e = UnidentifiedImageError then (tr @ [Log_warning], None) else (tr, Some e))
          else (tr, Some (NameError (ascii ''UnidentifiedImageError'')))
      | Inr img \<Rightarrow>
          (let latest_save_path =
                 Div directory
                   (lower (ulower env) (get_valid_filename (ualnum env) (name self))
                    @ ascii ''_latest.jpg'')
           in case img_save env img latest_save_path of
                Some e \<Rightarrow> (tr, Some e)
              | None \<Rightarrow>
                  (let tr1 = tr @ [File_write latest_save_path img]
                   in if save_timestamped_file self then
                        (let timestamp_save_path =
                               Div directory
                                 (name self @ ascii ''_'' @ fmt_opt (last_detection self)
                                  @ ascii ''.jpg'')
                         in case img_save env img timestamp_save_path of
                              Some e \<Rightarrow> (tr1, Some e)
                            | None \<Rightarrow>
                                (tr1 @ [File_write timestamp_save_path img,
                                        Log_info_saved timestamp_save_path], None))
                      else (tr1, None))))"

text \<open>
  \<open>process_image\<close>: the adapter and the effects after the call, and the exception the
  call raises to its caller, if any. The fields keep what was assigned before a raise.
\<close>

definition process_image ::
  "'img env \<Rightarrow> nat list \<Rightarrow> entity \<times> 'img effect list
     \<Rightarrow> (entity \<times> 'img effect list) \<times> exn option" where
  "process_image env image_bytes st =
     (let self0 = fst st;
          self1 = self0\<lparr>faces := [], matched := [], total_faces := None\<rparr>;
          tr1 = snd st @ [Service_call (detect_only self1) image_bytes]
      in case (if detect_only self1 then detect env image_bytes else recognise env image_bytes) of
           Inl exc \<Rightarrow>
             if exc = DeepstackException then ((self1, tr1 @ [Log_error exc]), None)
             else ((self1, tr1), Some exc)
         | Inr predictions \<Rightarrow>
             (let self2 = self1\<lparr>faces := predictions\<rparr>
              in if length (faces self2) > 0 then
                   (let self3 = self2\<lparr>last_detection := Some (strftime DATETIME_FORMAT (now env)),
                                      total_faces := Some (length (faces self2))\<rparr>
                    in case get_recognised_faces env (faces self3) of
                         Inl e \<Rightarrow> ((self3, tr1), Some e)
                       | Inr m \<Rightarrow>
                           (let self4 = self3\<lparr>matched := m\<rparr>
                            in case parse_faces (faces self4) of
                                 Inl e \<Rightarrow> ((self4, tr1), Some e)
                               | Inr fs \<Rightarrow>
                                   (let tr2 = tr1 @ [Fire_faces fs (length (faces self4))]
                                    in case save_file_folder self4 of
                                         None \<Rightarrow> ((self4, tr2), None)
                                       | Some directory \<Rightarrow>
                                           (let r = save_image env self4 image_bytes directory tr2
                                            in ((self4, fst r), snd r)))))
                 else ((self2\<lparr>total_faces := None, matched := []\<rparr>, tr1), None)))"

text \<open>\<open>teach\<close>: the effects after the call and the exception it raises, if any.\<close>

definition teach ::
  "'img env \<Rightarrow> entity \<Rightarrow> pystr \<Rightarrow> pystr \<Rightarrow> 'img effect list \<Rightarrow> 'img effect list \<times> exn option" where
  "teach env self nm file_path tr =
     (if \<not> is_allowed_path env file_path then (tr, None)
      else case file_open env file_path of
             Inl e \<Rightarrow> (tr, Some e)
           | Inr image_bytes \<Rightarrow>
               (case register_face env nm image_bytes of
                  Some e \<Rightarrow> (tr @ [File_open file_path, Register_face nm image_bytes], Some e)
                | None \<Rightarrow>
                    (tr @ [File_open file_path, Register_face nm image_bytes, Log_info_taught nm],
                     None)))"

text \<open>The property \<open>state\<close>.\<close>

definition state :: "entity \<Rightarrow> nat option" where
  "state self = total_faces self"

text \<open>\<open>device_state_attributes\<close>. A string is true when it is not empty.\<close>

datatype attrval =
    A_bool bool
  | A_dict "(pyval \<times> pyval) list"
  | A_int nat
  | A_str pystr

fun truthy :: "pystr option \<Rightarrow> bool" where
  "truthy None = False"
| "truthy (Some s) = (s \<noteq> [])"

definition device_state_attributes :: "entity \<Rightarrow> pystr \<rightharpoonup> attrval" where
  "device_state_attributes self =
     (let attr = Map.empty;
          attr = (if detect_only self
                  then attr(ascii ''detect_only'' \<mapsto> A_bool (detect_only self)) else attr);
          attr = (if \<not> detect_only self
                  then attr(ascii ''matched_faces'' \<mapsto> A_dict (matched self),
                            ascii ''total_matched_faces'' \<mapsto> A_int (length (matched self)))
                  else attr);
          attr = (if truthy (last_detection self)
                  then attr(ascii ''last_target_detection'' \<mapsto> A_str (the (last_detection self)))
                  else attr)
      in attr)"

section \<open>The teach action\<close>





section \<open>Notions of the properties\<close>

text \<open>
  The entries \<open>parse_faces\<close> retains: those before the first entry without a \<open>userid\<close>
  whose \<open>userid\<close> is not \<open>"unknown"\<close>.
\<close>

definition retained :: "pydict list \<Rightarrow> pydict list" where
  "retained predictions =
     filter (\<lambda>e. e USERID \<noteq> Some UNKNOWN) (takeWhile (\<lambda>e. e USERID \<noteq> None) predictions)"

text \<open>
  The face of an entry: its \<open>userid\<close> under \<open>name\<close>, and under \<open>confidence\<close> the float
  \<open>round(100.0 * c, 2)\<close> of its confidence \<open>c\<close>.
\<close>

definition emits :: "pydict \<Rightarrow> pydict \<Rightarrow> bool" where
  "emits e f =
     (case e USERID of
        None \<Rightarrow> False
      | Some uid \<Rightarrow>
          (case e CONFIDENCE of
             None \<Rightarrow> False
           | Some c \<Rightarrow>
               (case confidence_pct c of
                  Inl _ \<Rightarrow> False
                | Inr p \<Rightarrow> f = Map.empty(NAME \<mapsto> uid, ATTR_CONFIDENCE \<mapsto> PFloat p))))"

text \<open>
  A numeric value: a float (the magnitude of a finite one is not negative), a bool, or
  an int that converts to a float, which are the ints of magnitude below
  \<open>2 ^ 1024 - 2 ^ 970\<close>. An entry with a numeric confidence has a value of this kind under
  \<open>confidence\<close>.
\<close>

fun numeric :: "pyval \<Rightarrow> bool" where
  "numeric (PFloat (Finite s q)) = (0 \<le> q)"
| "numeric (PFloat _) = True"
| "numeric (PInt i) = (\<bar>i\<bar> < 2 ^ 1024 - 2 ^ 970)"
| "numeric (PBool b) = True"
| "numeric _ = False"

definition numeric_confidence :: "pydict \<Rightarrow> bool" where
  "numeric_confidence e = (case e CONFIDENCE of None \<Rightarrow> False | Some c \<Rightarrow> numeric c)"

text \<open>An entry that has a confidence from which the percentage is computed.\<close>

definition has_confidence :: "pydict \<Rightarrow> bool" where
  "has_confidence e =
     (case e CONFIDENCE of
        None \<Rightarrow> False
      | Some c \<Rightarrow> (case confidence_pct c of Inl _ \<Rightarrow> False | Inr _ \<Rightarrow> True))"

text \<open>
  The sanitizer as the specification words it: spaces become underscores, then every
  character that is not a word character, a hyphen or a dot is removed.
\<close>

definition sanitize_spec :: "(nat \<Rightarrow> bool) \<Rightarrow> pystr \<Rightarrow> pystr" where
  "sanitize_spec alnum s = filter (kept alnum) (replace_space s)"







text \<open>
  A cycle is a frame and the environment that answers it. An adapter lives through a
  sequence of cycles; an exception a cycle raises goes to the host, and the adapter
  goes on with the fields it has. A cycle detects when the service answers with at
  least one prediction.
\<close>

fun run ::
  "('img env \<times> nat list) list \<Rightarrow> entity \<times> 'img effect list \<Rightarrow> entity \<times> 'img effect list" where
  "run [] st = st"
| "run (c # cs) st = run cs (fst (process_image (fst c) (snd c) st))"

definition detects :: "bool \<Rightarrow> 'img env \<times> nat list \<Rightarrow> bool" where
  "detects detect_only' c =
     (case (if detect_only' then detect (fst c) (snd c) else recognise (fst c) (snd c)) of
        Inl _ \<Rightarrow> False
      | Inr predictions \<Rightarrow> predictions \<noteq> [])"


section \<open>Sample values\<close>

text \<open>
  An environment in which the service finds nothing, every path is refused and no file
  exists; adapters with the entity ids \<open>a\<close>, \<open>b\<close> and \<open>c\<close>; prediction entries.
\<close>

definition alice :: pydict where
  "alice = [USERID \<mapsto> PStr (ascii ''alice''), CONFIDENCE \<mapsto> PFloat (Finite False (1 / 2))]"

definition alice_face :: pydict where
  "alice_face = [NAME \<mapsto> PStr (ascii ''alice''), ATTR_CONFIDENCE \<mapsto> PFloat (Finite False 50)]"

definition bob :: pydict where
  "bob = [USERID \<mapsto> PStr (ascii ''bob'')]"

definition stranger :: pydict where
  "stranger = [USERID \<mapsto> UNKNOWN, CONFIDENCE \<mapsto> PFloat (Finite False (1 / 2))]"

definition anonymous :: pydict where
  "anonymous = [CONFIDENCE \<mapsto> PFloat (Finite False (1 / 2))]"

definition carol :: pydict where
  "carol = [USERID \<mapsto> PStr (ascii ''carol''), CONFIDENCE \<mapsto> PInt 1]"

definition bob_big :: pydict where
  "bob_big = [USERID \<mapsto> PStr (ascii ''bob''), CONFIDENCE \<mapsto> PInt (2 ^ 1024)]"

definition env0 :: "unit env" where
  "env0 =
     \<lparr> detect = (\<lambda>_. Inr []), recognise = (\<lambda>_. Inr []), register_face = (\<lambda>_ _. None),
       get_recognised_faces = (\<lambda>_. Inr []),
       now = \<lparr> year = 2020, month = 1, day = 2, hour = 3, minute = 4, second = 5 \<rparr>,
       image_open = (\<lambda>_. Inr ()), img_save = (\<lambda>_ _. None), is_allowed_path = (\<lambda>_. False),
       file_open = (\<lambda>_. Inl (OtherError (ascii ''FileNotFoundError''))),
       split_entity_id = (\<lambda>s. Inr (takeWhile (\<lambda>c. c \<noteq> 46) s, drop 1 (dropWhile (\<lambda>c. c \<noteq> 46) s))),
       ualnum = (\<lambda>_. False), ulower = (\<lambda>s. s) \<rparr>"

text \<open>
  Variants of it: the service is down; the frame is no image; the service sees
  \<open>alice\<close> and a stranger; every path is allowed (and still no file exists); every path
  is allowed and every file opens.
\<close>

definition env_down :: "unit env" where
  "env_down = env0\<lparr>recognise := (\<lambda>_. Inl DeepstackException)\<rparr>"

definition env_bad_image :: "unit env" where
  "env_bad_image = env0\<lparr>recognise := (\<lambda>_. Inr [alice, stranger]),
                        image_open := (\<lambda>_. Inl UnidentifiedImageError)\<rparr>"

definition env_seen :: "unit env" where
  "env_seen = env0\<lparr>recognise := (\<lambda>_. Inr [alice, stranger])\<rparr>"



definition cam_a :: entity where
  "cam_a =
     \<lparr> detect_only = False, last_detection = None, save_file_folder = Some (Path (ascii ''/out'')),
       save_timestamped_file = True, camera = ascii ''camera.a'', name = ascii ''Cam A'',
       faces = [], matched = [], total_faces = None, entity_id = Some (ascii ''a'') \<rparr>"



section \<open>Facts about the float arithmetic\<close>

text \<open>
  \<open>floor_log2\<close> is the binary exponent of a positive rational, so the rounding of a
  rational whose binade is known is a closed expression.
\<close>

lemma powi_exp_less:
  assumes "(2::rat) powi a \<le> q" "q < 2 powi b"
  shows "a < b"
proof (rule ccontr)
  assume "\<not> a < b"
  then have "b \<le> a" by simp
  then have "(2::rat) powi b \<le> 2 powi a"
    by (intro power_int_increasing) auto
  with assms show False by simp
qed

lemma floor_log2_bounds:
  assumes q: "0 < q"
  shows "2 powi floor_log2 q \<le> q \<and> q < 2 powi (floor_log2 q + 1)"
proof -
  obtain a b where ab: "quotient_of q = (a, b)" by (cases "quotient_of q")
  have b: "0 < b" using ab quotient_of_denom_pos by blast
  have qab: "q = of_int a / of_int b" using ab by (rule quotient_of_div)
  have a: "0 < a" using q b qab by (simp add: zero_less_divide_iff)
  define la lb where "la = bitlen a" and "lb = bitlen b"
  have la1: "1 \<le> la" using a bitlen_eq_zero_iff[of a] bitlen_nonneg[of a] by (simp add: la_def)
  have lb1: "1 \<le> lb" using b bitlen_eq_zero_iff[of b] bitlen_nonneg[of b] by (simp add: lb_def)
  have ba: "2 ^ nat (la - 1) \<le> a" "a < 2 ^ nat la"
    using bitlen_bounds[OF a] by (simp_all add: la_def)
  have bb: "2 ^ nat (lb - 1) \<le> b" "b < 2 ^ nat lb"
    using bitlen_bounds[OF b] by (simp_all add: lb_def)
  have ra: "(2::rat) powi (la - 1) \<le> of_int a" "(of_int a :: rat) < 2 powi la"
    using ba la1 by (simp_all add: power_int_def)
  have rb: "(2::rat) powi (lb - 1) \<le> of_int b" "(of_int b :: rat) < 2 powi lb"
    using bb lb1 by (simp_all add: power_int_def)
  have up: "q < 2 powi (la - lb + 1)"
  proof -
    have "of_int a / of_int b < (2::rat) powi la / 2 powi (lb - 1)"
      using ra rb a by (intro frac_less) auto
    also have "\<dots> = 2 powi (la - (lb - 1))" by (simp add: power_int_diff)
    finally show ?thesis by (simp add: qab algebra_simps)
  qed
  have dn: "2 powi (la - lb - 1) \<le> q"
  proof -
    have "(2::rat) powi (la - 1) / 2 powi lb \<le> of_int a / of_int b"
      using ra rb a b by (intro frac_le) auto
    moreover have "(2::rat) powi (la - 1) / 2 powi lb = 2 powi (la - 1 - lb)"
      by (simp add: power_int_diff)
    ultimately show ?thesis by (simp add: qab algebra_simps)
  qed
  show ?thesis
  proof (cases "2 powi (la - lb) \<le> q")
    case True
    then show ?thesis using up ab by (simp add: floor_log2_def la_def lb_def)
  next
    case False
    then show ?thesis using dn ab by (simp add: floor_log2_def la_def lb_def)
  qed
qed

lemma floor_log2_eq:
  assumes q: "0 < q" and lo: "2 powi e \<le> q" and hi: "q < 2 powi (e + 1)"
  shows "floor_log2 q = e"
proof -
  have b: "2 powi floor_log2 q \<le> q" "q < 2 powi (floor_log2 q + 1)"
    using floor_log2_bounds[OF q] by simp_all
  have "e < floor_log2 q + 1" using powi_exp_less[OF lo b(2)] .
  moreover have "floor_log2 q < e + 1" using powi_exp_less[OF b(1) hi] .
  ultimately show ?thesis by simp
qed

lemma rnd_mag_eq:
  assumes "0 < q" "2 powi e \<le> q" "q < 2 powi (e + 1)"
  shows "rnd_mag q =
    (let u = 2 powi (max (- 1074) (e - 52)); r = of_int (round_half_even (q / u)) * u
     in if 2 ^ 1024 \<le> r then None else Some r)"
  using assms floor_log2_eq[OF assms] by (simp add: rnd_mag_def ulp_exp_def)

lemma floor_rat_numeral:
  "\<lfloor>numeral a / numeral b :: rat\<rfloor> = numeral a div numeral b"
  using floor_divide_of_int_eq[of "numeral a" "numeral b", where ?'a = rat] by simp

lemma round_half_even_of_int: "round_half_even (of_int k) = k"
  by (simp add: round_half_even_def)

lemma round_half_even_close: "\<bar>of_int (round_half_even x) - x\<bar> \<le> 1 / 2"
proof -
  define f where "f = \<lfloor>x\<rfloor>"
  have fx: "of_int f \<le> x" "x < of_int f + 1"
    unfolding f_def by linarith+
  have r: "round_half_even x =
      (if x - of_int f < 1 / 2 then f
       else if 1 / 2 < x - of_int f then f + 1
       else if even f then f else f + 1)"
    by (simp add: round_half_even_def f_def Let_def)
  show ?thesis
  proof (cases "x - of_int f < 1 / 2")
    case True
    then show ?thesis using fx r by simp
  next
    case False
    then have "round_half_even x = f \<and> x - of_int f = 1 / 2 \<or> round_half_even x = f + 1"
      using r by (auto split: if_splits)
    then show ?thesis using fx False by auto
  qed
qed





lemma rnd_mag_50: "rnd_mag 50 = Some 50"
  by (subst rnd_mag_eq[where e = 5]) (simp_all add: round_half_even_def Let_def floor_rat_numeral)

lemma round2_half: "round2 (fmul hundred (Finite False (1 / 2))) = Inr (Finite False 50)"
  using round_half_even_of_int[of 5000]
  by (simp add: hundred_def rnd_mag_50)

text \<open>
  The rounding of a magnitude below \<open>2 ^ (e + 1)\<close> is within \<open>2 ^ (e - 53)\<close> of it, and does not
  overflow.
\<close>

lemma round_half_even_nonneg: "0 \<le> x \<Longrightarrow> 0 \<le> round_half_even x"
proof -
  assume "0 \<le> x"
  then have "0 \<le> \<lfloor>x\<rfloor>" by simp
  then show ?thesis by (simp add: round_half_even_def Let_def)
qed

lemma rnd_mag_close:
  assumes q: "0 < q" and hi: "q < 2 powi (e + 1)" and e: "- 1022 \<le> e" "e \<le> 1022"
  shows "\<exists>r. rnd_mag q = Some r \<and> \<bar>r - q\<bar> \<le> 2 powi (e - 53) \<and> 0 \<le> r"
proof -
  define u :: rat where "u = 2 powi ulp_exp q"
  define k where "k = round_half_even (q / u)"
  have u0: "0 < u" by (simp add: u_def)
  have "floor_log2 q < e + 1"
    using powi_exp_less[of "floor_log2 q" q "e + 1"] floor_log2_bounds[OF q] hi by simp
  then have "ulp_exp q \<le> e - 52" using e by (simp add: ulp_exp_def)
  then have ule: "u \<le> 2 powi (e - 52)"
    unfolding u_def by (intro power_int_increasing) auto
  have "\<bar>of_int k - q / u\<bar> \<le> 1 / 2" unfolding k_def by (rule round_half_even_close)
  then have "\<bar>of_int k - q / u\<bar> * u \<le> 1 / 2 * u"
    using u0 by (intro mult_right_mono) auto
  moreover have "\<bar>of_int k - q / u\<bar> * u = \<bar>of_int k * u - q\<bar>"
  proof -
    have "\<bar>of_int k - q / u\<bar> * u = \<bar>of_int k - q / u\<bar> * \<bar>u\<bar>" using u0 by simp
    also have "\<dots> = \<bar>(of_int k - q / u) * u\<bar>" by (simp only: abs_mult)
    also have "(of_int k - q / u) * u = of_int k * u - q"
      using u0 by (simp add: left_diff_distrib)
    finally show ?thesis .
  qed
  ultimately have c: "\<bar>of_int k * u - q\<bar> \<le> u / 2" by simp
  have half: "(2::rat) powi (e - 52) / 2 = 2 powi (e - 53)"
    using power_int_diff[of "2::rat" "e - 52" 1] by simp
  have close: "\<bar>of_int k * u - q\<bar> \<le> 2 powi (e - 53)"
    using c ule half by linarith
  have "(2::rat) powi (e - 53) \<le> 2 powi (e + 1)"
    by (intro power_int_increasing) auto
  then have "of_int k * u < 2 * 2 powi (e + 1)" using close hi by linarith
  also have "\<dots> = 2 powi (e + 2)"
    using power_int_add[of "2::rat" "e + 1" 1] by (simp add: add.commute mult.commute)
  also have "\<dots> \<le> 2 powi 1024" using e by (intro power_int_increasing) auto
  finally have no: "\<not> 2 ^ 1024 \<le> of_int k * u" by simp
  have "0 \<le> k" unfolding k_def using q u0 by (intro round_half_even_nonneg) simp
  then have "0 \<le> of_int k * u" using u0 by simp
  then show ?thesis using q no close
    by (simp add: rnd_mag_def Let_def u_def[symmetric] k_def[symmetric])
qed



text \<open>
  Rounding is idempotent, so \<open>round(x, 2)\<close> never overflows on a product, and the
  percentage of every numeric value is computed.
\<close>

lemma round_half_even_le: "x \<le> of_int m \<Longrightarrow> round_half_even x \<le> m"
proof -
  assume x: "x \<le> of_int m"
  define f where "f = \<lfloor>x\<rfloor>"
  have fx: "of_int f \<le> x" "x < of_int f + 1" unfolding f_def by linarith+
  have fm: "f \<le> m" using x unfolding f_def by (simp add: floor_le_iff) 
  show ?thesis
  proof (cases "x - of_int f < 1 / 2")
    case True
    then show ?thesis using fm by (simp add: round_half_even_def f_def Let_def)
  next
    case False
    then have "of_int f < x" by simp
    then have "of_int f < (of_int m :: rat)" using x by simp
    then have "f + 1 \<le> m" by simp
    then show ?thesis using fm by (simp add: round_half_even_def f_def[symmetric] Let_def)
  qed
qed

lemma round_half_even_below_half:
  "x < of_int m - 1 / 2 \<Longrightarrow> round_half_even x \<le> m - 1"
proof -
  assume x: "x < of_int m - 1 / 2"
  define f where "f = \<lfloor>x\<rfloor>"
  have fx: "of_int f \<le> x" "x < of_int f + 1" unfolding f_def by linarith+
  have "of_int f < (of_int m :: rat)" using fx x by linarith
  then have fm: "f \<le> m - 1" by simp
  show ?thesis
  proof (cases "f = m - 1")
    case True
    then have "x - of_int f < 1 / 2" using x by simp
    then show ?thesis using True by (simp add: round_half_even_def f_def[symmetric] Let_def)
  next
    case False
    then have "f + 1 \<le> m - 1" using fm by simp
    then show ?thesis by (simp add: round_half_even_def f_def[symmetric] Let_def)
  qed
qed

lemma rnd_mag_idem:
  assumes x: "0 < x" and r: "rnd_mag x = Some y"
  shows "rnd_mag y = Some y"
proof -
  define E where "E = ulp_exp x"
  define u :: rat where "u = 2 powi E"
  define n where "n = round_half_even (x / u)"
  have u0: "0 < u" by (simp add: u_def)
  have E: "- 1074 \<le> E" "floor_log2 x - 52 \<le> E" by (simp_all add: E_def ulp_exp_def)
  have y: "y = of_int n * u" and small: "\<not> 2 ^ 1024 \<le> y"
    using r x by (auto simp: rnd_mag_def Let_def E_def u_def n_def split: if_splits)
  have n0: "0 \<le> n" unfolding n_def using x u0 by (intro round_half_even_nonneg) simp
  have "x < 2 powi (floor_log2 x + 1)" using floor_log2_bounds[OF x] by simp
  also have "\<dots> \<le> 2 powi (E + 53)" using E by (intro power_int_increasing) auto
  also have "\<dots> = 2 powi 53 * u"
    using power_int_add[of "2::rat" 53 E] by (simp add: u_def add.commute)
  finally have "x / u < 2 powi 53" using u0 by (simp add: pos_divide_less_eq)
  then have "x / u \<le> of_int (2 ^ 53)" by simp
  then have n53: "n \<le> 2 ^ 53" unfolding n_def by (rule round_half_even_le)
  show ?thesis
  proof (cases "n = 0")
    case True
    then show ?thesis using y by (simp add: rnd_mag_def)
  next
    case False
    then have npos: "0 < n" using n0 by simp
    then have ypos: "0 < y" using y u0 by simp
    show ?thesis
    proof (cases "n = 2 ^ 53")
      case True
      then have y2: "y = 2 powi (E + 53)"
        using y power_int_add[of "2::rat" 53 E] by (simp add: u_def add.commute)
      have "(2::rat) powi (E + 53) < 2 powi (E + 53 + 1)"
        by (intro power_int_strict_increasing) auto
      then have "floor_log2 y = E + 53"
        using ypos y2 by (intro floor_log2_eq) simp_all
      then have uy: "ulp_exp y = E + 1" using E by (simp add: ulp_exp_def)
      have split: "(2::rat) powi (E + 53) = 2 powi 52 * 2 powi (E + 1)"
        using power_int_add[of "2::rat" 52 "E + 1"] by (simp add: algebra_simps)
      have "y / 2 powi (E + 1) = of_int (2 ^ 52)"
        unfolding y2 split by simp
      then have "round_half_even (y / 2 powi (E + 1)) = 2 ^ 52"
        by (simp only: round_half_even_of_int)
      moreover have "of_int (2 ^ 52) * 2 powi (E + 1) = y"
        unfolding y2 split by simp
      ultimately show ?thesis using ypos small uy by (simp add: rnd_mag_def Let_def)
    next
      case False
      then have "n < 2 ^ 53" using n53 by simp
      then have "(of_int n :: rat) < 2 powi 53" by (simp add: of_int_less_numeral_power_cancel_iff)
      then have "y < 2 powi 53 * u" using y u0 by simp
      also have "\<dots> = 2 powi (E + 53)"
        using power_int_add[of "2::rat" 53 E] by (simp add: u_def add.commute)
      finally have "floor_log2 y < E + 53"
        using powi_exp_less[of "floor_log2 y" y "E + 53"] floor_log2_bounds[OF ypos] by simp
      then have Ey: "ulp_exp y \<le> E" using E by (simp add: ulp_exp_def)
      define d where "d = nat (E - ulp_exp y)"
      define uy :: rat where "uy = 2 powi ulp_exp y"
      have uy0: "0 < uy" by (simp add: uy_def)
      have "u / uy = 2 powi (E - ulp_exp y)"
        by (simp add: u_def uy_def power_int_diff)
      also have "\<dots> = 2 ^ d" using Ey by (simp add: d_def power_int_def)
      finally have ud: "u = 2 ^ d * uy" using uy0 by (simp add: nonzero_divide_eq_eq)
      have q: "y / uy = of_int (n * 2 ^ d)"
        unfolding y ud using uy0 by simp
      then have "round_half_even (y / uy) = n * 2 ^ d"
        by (simp only: round_half_even_of_int)
      moreover have "of_int (n * 2 ^ d) * uy = y"
        unfolding y ud by simp
      ultimately show ?thesis using ypos small by (simp add: rnd_mag_def Let_def uy_def)
    qed
  qed
qed

lemma round2_zero: "round2 (Finite s 0) = Inr (Finite s 0)"
  using round_half_even_of_int[of 0] by (simp add: rnd_mag_def)

lemma round2_total:
  assumes x: "0 \<le> x" and r: "rnd_mag x = Some y"
  shows "\<exists>p. round2 (Finite s y) = Inr p"
proof (cases "x = 0")
  case True
  then have "y = 0" using r by (simp add: rnd_mag_def)
  then show ?thesis by (simp only: round2_zero) simp
next
  case False
  then have xpos: "0 < x" using x by simp
  show ?thesis
  proof (cases "x < 2 ^ 52")
    case True
    then have "x < 2 powi (51 + 1)" by simp
    from rnd_mag_close[OF xpos this] r have y: "0 \<le> y" "\<bar>y - x\<bar> \<le> 2 powi (51 - 53)"
      by auto
    then have ylt: "y < 2 ^ 52 + 1" using True by (simp add: power_int_minus_divide abs_if split: if_splits)
    define k where "k = round_half_even (y * 100)"
    have k0: "0 \<le> k" unfolding k_def using y(1) by (intro round_half_even_nonneg) simp
    have "\<bar>of_int k - y * 100\<bar> \<le> 1 / 2" unfolding k_def by (rule round_half_even_close)
    then have "of_int k / 100 \<le> y + 1 / 200" by (simp add: abs_if split: if_splits)
    then have "of_int k / 100 < (2::rat) ^ 53" using ylt by simp
    then have lt: "of_int k / 100 < (2::rat) powi (52 + 1)" by simp
    have "\<exists>q. rnd_mag (of_int k / 100) = Some q"
    proof (cases "k = 0")
      case True
      then show ?thesis by (simp add: rnd_mag_def)
    next
      case False
      then have "(0::rat) < of_int k / 100" using k0 by simp
      from rnd_mag_close[OF this lt] show ?thesis by auto
    qed
    then show ?thesis by (auto simp: k_def)
  next
    case False
    then have "(2::rat) powi 52 \<le> x" by simp
    then have "52 < floor_log2 x + 1"
      using powi_exp_less[of 52 x "floor_log2 x + 1"] floor_log2_bounds[OF xpos] by simp
    then have E: "ulp_exp x = floor_log2 x - 52" "0 \<le> floor_log2 x - 52"
      by (simp_all add: ulp_exp_def)
    define m where "m = round_half_even (x / 2 powi ulp_exp x) * 2 ^ nat (ulp_exp x)"
    have "(2::rat) powi ulp_exp x = 2 ^ nat (ulp_exp x)"
      using E by (simp add: power_int_def)
    then have y: "y = of_int m"
      using r xpos by (auto simp: rnd_mag_def Let_def m_def split: if_splits)
    have "y * 100 = of_int (m * 100)" by (simp add: y)
    then have "round_half_even (y * 100) = m * 100" by (simp only: round_half_even_of_int)
    then have "of_int (round_half_even (y * 100)) / 100 = y" by (simp add: y)
    moreover have "rnd_mag y = Some y" using rnd_mag_idem[OF xpos r] .
    ultimately show ?thesis by simp
  qed
qed

lemma pct_total: "0 \<le> q \<Longrightarrow> \<exists>p. round2 (fmul hundred (Finite s q)) = Inr p"
proof -
  assume q: "0 \<le> q"
  show ?thesis
  proof (cases "rnd_mag (100 * q)")
    case None
    then show ?thesis by (simp add: hundred_def)
  next
    case (Some y)
    have "0 \<le> 100 * q" using q by simp
    from round2_total[OF this Some, of s] Some show ?thesis by (simp add: hundred_def)
  qed
qed

lemma int_converts:
  assumes "\<bar>i\<bar> < 2 ^ 1024 - 2 ^ 970"
  shows "\<exists>y. rnd_mag (of_int \<bar>i\<bar>) = Some y \<and> 0 \<le> y"
proof -
  define a :: rat where "a = of_int \<bar>i\<bar>"
  have a0: "0 \<le> a" by (simp add: a_def)
  have "(of_int \<bar>i\<bar> :: rat) < of_int (2 ^ 1024 - 2 ^ 970)"
    using assms by (simp only: of_int_less_iff)
  then have abound: "a < 2 ^ 1024 - 2 ^ 970" by (simp add: a_def)
  have ?thesis if "a = 0" using that by (simp add: rnd_mag_def a_def)
  moreover have ?thesis if "0 < a" "a < 2 ^ 1023"
  proof -
    have "a < 2 powi (1022 + 1)" using that by simp
    from rnd_mag_close[OF that(1) this] show ?thesis by (auto simp: a_def)
  qed
  moreover have ?thesis if big: "2 ^ 1023 \<le> a"
  proof -
    have apos: "0 < a" using big by (simp add: less_le_trans[of 0 "2 ^ 1023"])
    have lo: "2 powi 1023 \<le> a" using big by simp
    have hi: "a < 2 powi (1023 + 1)" using abound by simp
    define n where "n = round_half_even (a / 2 powi 971)"
    have "a / 2 ^ 971 < (2 ^ 1024 - 2 ^ 970) / 2 ^ 971"
      using abound by (simp add: divide_strict_right_mono)
    also have "(2 ^ 1024 - 2 ^ 970) / 2 ^ 971 = (2::rat) ^ 53 - 1 / 2"
      by (simp add: diff_divide_distrib)
    finally have "a / 2 powi 971 < of_int (2 ^ 53) - 1 / 2" by simp
    then have "n \<le> 2 ^ 53 - 1" unfolding n_def by (rule round_half_even_below_half)
    then have "(of_int n :: rat) \<le> of_int (2 ^ 53 - 1)" by (simp only: of_int_le_iff)
    then have "of_int n * (2::rat) ^ 971 \<le> (2 ^ 53 - 1) * 2 ^ 971"
      by (simp add: mult_right_mono)
    also have "\<dots> < (2::rat) ^ 1024" by simp
    finally have no: "\<not> (2::rat) ^ 1024 \<le> of_int n * 2 ^ 971" by simp
    have n0: "0 \<le> n" unfolding n_def using apos by (intro round_half_even_nonneg) simp
    have "rnd_mag a = Some (of_int n * 2 ^ 971)"
      using no by (subst rnd_mag_eq[OF apos lo hi]) (simp add: Let_def n_def)
    then show ?thesis using n0 by (simp add: a_def)
  qed
  ultimately show ?thesis using a0 by fastforce
qed

lemma numeric_pct: "numeric c \<Longrightarrow> \<exists>p. confidence_pct c = Inr p"
proof (induction c rule: numeric.induct)
  case (1 s q)
  then show ?case using pct_total[of q s] by simp
next
  case (3 i)
  then obtain y where y: "rnd_mag (of_int \<bar>i\<bar>) = Some y" "0 \<le> y"
    using int_converts[of i] by auto
  then show ?case using pct_total[of y "i < 0"] by (simp add: float_of_int_def)
next
  case (4 b)
  have "\<bar>if b then 1 else 0 :: int\<bar> < 2 ^ 1024 - 2 ^ 970" by simp
  then obtain y where y: "rnd_mag (of_int \<bar>if b then 1 else 0 :: int\<bar>) = Some y" "0 \<le> y"
    using int_converts[of "if b then 1 else 0"] by blast
  then show ?case using pct_total[of y False] by (simp add: float_of_int_def split: if_splits)
qed (simp_all add: hundred_def)

section \<open>Facts about the parsing loop\<close>

lemma key_distinct:
  "NAME \<noteq> ATTR_CONFIDENCE" "USERID \<noteq> CONFIDENCE" "CONFIDENCE \<noteq> USERID"
  by (simp_all add: NAME_def ATTR_CONFIDENCE_def USERID_def CONFIDENCE_def ascii_def)

lemma parse_faces_loop_break:
  "entry USERID = None \<Longrightarrow>
   parse_faces_loop acc (pre @ entry # rest) = parse_faces_loop acc pre"
proof (induction pre arbitrary: acc)
  case Nil
  then show ?case by simp
next
  case (Cons e pre)
  then show ?case by (simp split: option.splits sum.splits)
qed

lemma make_face_emits:
  "e USERID = Some uid \<Longrightarrow> make_face uid e = Inr f \<Longrightarrow> emits e f"
  by (auto simp: make_face_def emits_def split: option.splits sum.splits)

lemma make_face_total:
  "e USERID = Some uid \<Longrightarrow> has_confidence e \<Longrightarrow> \<exists>f. make_face uid e = Inr f"
  by (auto simp: make_face_def has_confidence_def split: option.splits sum.splits)

lemma numeric_has_confidence: "numeric_confidence e \<Longrightarrow> has_confidence e"
  using numeric_pct
  by (fastforce simp: numeric_confidence_def has_confidence_def split: option.splits sum.splits)

lemma emits_name: "emits e f \<Longrightarrow> f NAME = e USERID"
  using key_distinct(1) by (auto simp: emits_def split: option.splits sum.splits)

lemma parse_faces_loop_retained:
  "parse_faces_loop acc ps = Inr fs \<Longrightarrow>
   \<exists>gs. fs = acc @ gs \<and> list_all2 emits (retained ps) gs"
proof (induction ps arbitrary: acc)
  case Nil
  then show ?case by (simp add: retained_def)
next
  case (Cons e ps)
  show ?case
  proof (cases "e USERID")
    case None
    with Cons.prems show ?thesis by (simp add: retained_def)
  next
    case (Some uid)
    show ?thesis
    proof (cases "uid = UNKNOWN")
      case True
      with Some Cons.prems have "parse_faces_loop acc ps = Inr fs" by simp
      from Cons.IH[OF this] show ?thesis using Some True by (simp add: retained_def)
    next
      case False
      with Some Cons.prems obtain f where f: "make_face uid e = Inr f"
        and r: "parse_faces_loop (acc @ [f]) ps = Inr fs"
        by (auto split: sum.splits)
      from Cons.IH[OF r] obtain gs where gs: "fs = (acc @ [f]) @ gs" "list_all2 emits (retained ps) gs"
        by blast
      have "emits e f" using make_face_emits[of e uid f] Some f by simp
      then have "list_all2 emits (retained (e # ps)) (f # gs)"
        using gs(2) Some False by (simp add: retained_def)
      then show ?thesis using gs(1) by auto
    qed
  qed
qed

lemma parse_faces_loop_total:
  assumes "\<forall>e\<in>set ps. e USERID \<noteq> None"
    and "\<forall>e\<in>set ps. e USERID \<noteq> Some UNKNOWN \<longrightarrow> has_confidence e"
  shows "\<exists>fs. parse_faces_loop acc ps = Inr fs"
  using assms
proof (induction ps arbitrary: acc)
  case Nil
  then show ?case by simp
next
  case (Cons e ps)
  from Cons.prems obtain uid where uid: "e USERID = Some uid" by auto
  show ?case
  proof (cases "uid = UNKNOWN")
    case True
    then show ?thesis using Cons uid by simp
  next
    case False
    then have "has_confidence e" using Cons.prems(2) uid by simp
    then obtain f where "make_face uid e = Inr f" using make_face_total[of e uid] uid by blast
    then show ?thesis using Cons uid False by simp
  qed
qed

lemma retained_all_named:
  assumes "\<forall>e\<in>set ps. e USERID \<noteq> None"
  shows "retained ps = filter (\<lambda>e. e USERID \<noteq> Some UNKNOWN) ps"
proof -
  have "takeWhile (\<lambda>e. e USERID \<noteq> None) ps = ps"
    using assms by (simp only: takeWhile_eq_all_conv)
  then show ?thesis by (simp only: retained_def)
qed

lemma list_all2_emits_names:
  "list_all2 emits es fs \<Longrightarrow> map (\<lambda>f. f NAME) fs = map (\<lambda>e. e USERID) es"
  by (induction rule: list_all2_induct) (simp_all add: emits_name)

lemma parse_faces_big_int: "parse_faces [bob_big] = Inl OverflowError"
proof -
  have "rnd_mag (2 ^ 1024) = None"
    by (subst rnd_mag_eq[where e = 1024]) (simp_all add: Let_def round_half_even_def)
  then have "confidence_pct (PInt (2 ^ 1024)) = Inl OverflowError"
    by (simp add: float_of_int_def)
  then show ?thesis
    using key_distinct
    by (simp add: parse_faces_def bob_big_def make_face_def UNKNOWN_def ascii_def)
qed

lemma parse_alice_anonymous: "parse_faces [alice, anonymous] = Inr [alice_face]"
  using key_distinct
  by (simp add: parse_faces_def alice_def anonymous_def alice_face_def make_face_def
      round2_half UNKNOWN_def ascii_def)


section \<open>Facts about file names and timestamps\<close>

lemma strip_example: "strip (ascii '' a'') = ascii ''a''"
  by (simp add: strip_def ascii_def is_space_def)




lemma strftime_format:
  "strftime DATETIME_FORMAT dt =
     zpad 4 (year dt) @ 45 # zpad 2 (month dt) @ 45 # zpad 2 (day dt) @ 95 #
     zpad 2 (hour dt) @ 45 # zpad 2 (minute dt) @ 45 # zpad 2 (second dt)"
  by (simp add: DATETIME_FORMAT_def ascii_def directive_def)

lemma strftime_nonempty: "strftime DATETIME_FORMAT dt \<noteq> []"
  by (simp add: strftime_format)





section \<open>Facts about the adapter\<close>

lemma handler_name_unbound: "''UnidentifiedImageError'' \<notin> set module_globals"
  by (simp add: module_globals_def)


lemma process_image_detect_only:
  "detect_only (fst (fst (process_image env image_bytes st))) = detect_only (fst st)"
  by (simp add: process_image_def Let_def split: sum.splits option.splits)

lemma process_image_last_detection:
  "truthy (last_detection (fst (fst (process_image env image_bytes st))))
     = (truthy (last_detection (fst st)) \<or> detects (detect_only (fst st)) (env, image_bytes))"
  by (auto simp: process_image_def Let_def detects_def strftime_nonempty
      split: sum.splits option.splits)

lemma run_detect_only: "detect_only (fst (run cycles st)) = detect_only (fst st)"
  by (induction cycles arbitrary: st) (simp_all add: process_image_detect_only)

lemma run_last_detection:
  "truthy (last_detection (fst (run cycles st)))
     = (truthy (last_detection (fst st)) \<or> (\<exists>c\<in>set cycles. detects (detect_only (fst st)) c))"
proof (induction cycles arbitrary: st)
  case Nil
  then show ?case by simp
next
  case (Cons c cycles)
  show ?case
    using Cons.IH[of "fst (process_image (fst c) (snd c) st)"]
      process_image_last_detection[of "fst c" "snd c" st]
      process_image_detect_only[of "fst c" "snd c" st]
    by auto
qed

lemma attribute_exposed:
  "(ascii ''last_target_detection'' \<in> dom (device_state_attributes self))
     = truthy (last_detection self)"
  by (simp add: device_state_attributes_def Let_def ascii_def)

lemma init_fields:
  "init env d sff stf cam nm = Inr self \<Longrightarrow> last_detection self = None \<and> detect_only self = d"
  by (auto simp: init_def Let_def split: option.splits sum.splits if_splits)







section \<open>Properties of \<open>save_image\<close>, \<open>process_image\<close> and \<open>teach\<close>\<close>

text \<open>
  Claim C1 does not hold of the code. The handler of \<open>save_image\<close> names
  \<open>UnidentifiedImageError\<close>, which the module never imports: whenever the bytes do not
  decode, evaluating the handler raises \<open>NameError\<close>. No warning is logged, no file is
  written, and the exception leaves \<open>save_image\<close> and \<open>process_image\<close>; the detection
  result that \<open>process_image\<close> has stored stays as it is.
\<close>

theorem save_image_bad_data_raises:
  assumes "image_open env image_bytes = Inl e"
  shows "save_image env self image_bytes directory tr
           = (tr, Some (NameError (ascii ''UnidentifiedImageError'')))
    \<and> ((if detect_only self then detect env image_bytes else recognise env image_bytes)
           = Inr predictions
         \<and> predictions \<noteq> [] \<and> get_recognised_faces env predictions = Inr m
         \<and> parse_faces predictions = Inr fs \<and> save_file_folder self = Some directory \<longrightarrow>
       snd (process_image env image_bytes (self, tr))
           = Some (NameError (ascii ''UnidentifiedImageError''))
       \<and> total_faces (fst (fst (process_image env image_bytes (self, tr))))
           = Some (length predictions)
       \<and> faces (fst (fst (process_image env image_bytes (self, tr)))) = predictions
       \<and> matched (fst (fst (process_image env image_bytes (self, tr)))) = m)"
proof -
  have s: "\<And>self tr. save_image env self image_bytes directory tr
           = (tr, Some (NameError (ascii ''UnidentifiedImageError'')))"
    using assms handler_name_unbound by (simp add: save_image_def)
  show ?thesis using s by (simp add: process_image_def Let_def)
qed

theorem save_image_bad_data_raises_witness:
  "image_open env_bad_image [0] = Inl UnidentifiedImageError
   \<and> save_image env_bad_image cam_a [0] (Path (ascii ''/out'')) []
       = ([], Some (NameError (ascii ''UnidentifiedImageError'')))
   \<and> snd (process_image env_bad_image [0] (cam_a, []))
       = Some (NameError (ascii ''UnidentifiedImageError''))
   \<and> total_faces (fst (fst (process_image env_bad_image [0] (cam_a, [])))) = Some 2"
proof -
  have h: "image_open env_bad_image [0] = Inl UnidentifiedImageError"
    by (simp add: env_bad_image_def)
  have p: "(if detect_only cam_a then detect env_bad_image [0] else recognise env_bad_image [0])
           = Inr [alice, stranger]
         \<and> [alice, stranger] \<noteq> [] \<and> get_recognised_faces env_bad_image [alice, stranger] = Inr []
         \<and> save_file_folder cam_a = Some (Path (ascii ''/out''))"
    by (simp add: env_bad_image_def env0_def cam_a_def)
  have q: "parse_faces [alice, stranger] = Inr [alice_face]"
    using key_distinct
    by (simp add: parse_faces_def alice_def stranger_def alice_face_def make_face_def
        round2_half UNKNOWN_def ascii_def)
  show ?thesis
    using h p q
      save_image_bad_data_raises[OF h, of cam_a "Path (ascii ''/out'')" "[]"
        "[alice, stranger]" "[]" "[alice_face]"]
    by simp
qed

text \<open>
  Claim C3: when the call of the service (\<open>detect\<close> in detect-only mode, \<open>recognise\<close>
  otherwise) raises \<open>DeepstackException\<close>, \<open>process_image\<close> logs the error, raises
  nothing to its caller, and leaves the adapter with no faces, an empty tally and
  \<open>total_faces\<close> equal to \<open>None\<close>; nothing else of the adapter changes.
\<close>

theorem process_image_service_failure:
  "(if detect_only self then detect env image_bytes else recognise env image_bytes)
     = Inl DeepstackException \<Longrightarrow>
   process_image env image_bytes (self, tr)
     = ((self\<lparr>faces := [], matched := [], total_faces := None\<rparr>,
         tr @ [Service_call (detect_only self) image_bytes, Log_error DeepstackException]), None)"
  by (simp add: process_image_def Let_def)


theorem process_image_service_failure_witness:
  "(if detect_only cam_a then detect env_down [255, 216] else recognise env_down [255, 216])
     = Inl DeepstackException
   \<and> process_image env_down [255, 216] (cam_a, [])
     = ((cam_a\<lparr>faces := [], matched := [], total_faces := None\<rparr>,
         [Service_call (detect_only cam_a) [255, 216], Log_error DeepstackException]), None)"
proof -
  have h: "(if detect_only cam_a then detect env_down [255, 216] else recognise env_down [255, 216])
     = Inl DeepstackException" by (simp add: env_down_def cam_a_def env0_def)
  show ?thesis using h process_image_service_failure[OF h, of "[]"] by simp
qed

text \<open>
  Claim C7: when the file path is outside the allowed paths of the host, \<open>teach\<close> returns
  with no effect and no exception: it opens no file, calls no registration endpoint and
  logs nothing.
\<close>

theorem teach_disallowed_path:
  "\<not> is_allowed_path env file_path \<Longrightarrow> teach env self nm file_path tr = (tr, None)"
  by (simp add: teach_def)

theorem teach_disallowed_path_witness:
  "\<not> is_allowed_path env0 (ascii ''/etc/passwd'')
   \<and> teach env0 cam_a (ascii ''alice'') (ascii ''/etc/passwd'') [] = ([], None)"
proof -
  have h: "\<not> is_allowed_path env0 (ascii ''/etc/passwd'')" by (simp add: env0_def)
  show ?thesis using h teach_disallowed_path[OF h, of cam_a "ascii ''alice''" "[]"] by simp
qed



text \<open>
  Claim C9: after any sequence of cycles of an adapter created by \<open>__init__\<close>, the
  attribute \<open>last_target_detection\<close> is exposed if and only if one of the cycles has
  detected; and a call of \<open>process_image\<close>, whatever its outcome, keeps the attribute
  exposed once it is.
\<close>

theorem last_detection_exposed:
  assumes "init env d sff stf cam nm = Inr self"
  shows "(ascii ''last_target_detection''
            \<in> dom (device_state_attributes (fst (run cycles (self, tr)))))
          = (\<exists>c\<in>set cycles. detects d c)
    \<and> (ascii ''last_target_detection'' \<in> dom (device_state_attributes s) \<longrightarrow>
         ascii ''last_target_detection''
           \<in> dom (device_state_attributes (fst (fst (process_image env' image_bytes (s, tr'))))))"
  using init_fields[OF assms] run_last_detection[of cycles "(self, tr)"]
    process_image_last_detection[of env' image_bytes "(s, tr')"]
  by (simp add: attribute_exposed)

theorem last_detection_exposed_witness:
  "\<exists>self. init env0 False None False (ascii ''camera.a'') None = Inr self
     \<and> ascii ''last_target_detection''
         \<in> dom (device_state_attributes
                  (fst (run [(env0, [1]), (env_seen, [2]), (env0, [3]), (env_down, [4])] (self, []))))
     \<and> ascii ''last_target_detection''
         \<notin> dom (device_state_attributes (fst (run [(env0, [1]), (env_down, [4])] (self, []))))"
proof -
  obtain self where i: "init env0 False None False (ascii ''camera.a'') None = Inr self"
    by (simp add: init_def env0_def Let_def)
  have a: "\<exists>c\<in>set [(env0, [1]), (env_seen, [2]), (env0, [3]), (env_down, [4])]. detects False c"
    by (simp add: detects_def env_seen_def env0_def)
  have b: "\<not> (\<exists>c\<in>set [(env0, [1]), (env_down, [4])]. detects False c)"
    by (simp add: detects_def env_down_def env0_def)
  have c: "ascii ''last_target_detection''
         \<in> dom (device_state_attributes
                  (fst (run [(env0, [1]), (env_seen, [2]), (env0, [3]), (env_down, [4])] (self, []))))"
    using a last_detection_exposed[OF i, of "[(env0, [1]), (env_seen, [2]), (env0, [3]), (env_down, [4])]" "[]",
        THEN conjunct1] by simp
  have d: "ascii ''last_target_detection''
         \<notin> dom (device_state_attributes (fst (run [(env0, [1]), (env_down, [4])] (self, []))))"
    using b last_detection_exposed[OF i, of "[(env0, [1]), (env_down, [4])]" "[]", THEN conjunct1] by simp
  show ?thesis using i c d by (intro exI[of _ self]) simp
qed

section \<open>Properties of \<open>parse_faces\<close>\<close>

text \<open>
  Claim C2, as stated, fails: of the list of a named entry followed by an entry without
  \<open>userid\<close>, \<open>parse_faces\<close> returns the face of the named entry, not the empty list.
\<close>

theorem parse_faces_unnamed_not_empty:
  "anonymous USERID = None \<and> parse_faces [alice, anonymous] = Inr [alice_face]
   \<and> parse_faces [alice, anonymous] \<noteq> Inr []"
  using key_distinct by (simp add: parse_alice_anonymous) (simp add: anonymous_def)

text \<open>
  Claim C2, amended: \<open>parse_faces\<close> stops at the first entry that lacks the identity
  field \<open>userid\<close> and returns what it has parsed from the entries before it, whatever
  follows; when the first entry of the list lacks the field, the result is the empty
  list.
\<close>

theorem parse_faces_stops_at_unnamed:
  "entry USERID = None \<Longrightarrow>
   parse_faces (pre @ entry # rest) = parse_faces pre \<and> parse_faces (entry # rest) = Inr []"
  using parse_faces_loop_break[of entry "[]" pre rest]
  by (simp add: parse_faces_def)

theorem parse_faces_stops_at_unnamed_witness:
  "anonymous USERID = None \<and> parse_faces ([alice] @ anonymous # [bob]) = parse_faces [alice]
   \<and> parse_faces (anonymous # [bob]) = Inr []"
proof -
  have h: "anonymous USERID = None" using key_distinct by (simp add: anonymous_def)
  show ?thesis using h parse_faces_stops_at_unnamed[of anonymous "[alice]" "[bob]"] by simp
qed

text \<open>
  Claim C4, as stated, fails: the entry \<open>bob\<close> carries an identity and no confidence, and
  \<open>parse_faces\<close> of the list that holds it raises \<open>KeyError\<close> instead of returning a list.
  (An entry whose confidence is not a number, or is an int too large for a float, makes
  it raise as well: \<open>parse_faces_big_int\<close>.)
\<close>

theorem parse_faces_missing_confidence:
  "bob USERID \<noteq> None \<and> parse_faces [bob] = Inl (KeyError CONFIDENCE)"
  using key_distinct
  by (simp add: parse_faces_def bob_def make_face_def UNKNOWN_def ascii_def)

text \<open>
  Claim C4, amended: for every prediction list in which every entry carries an identity
  field and every entry whose identity is not \<open>"unknown"\<close> carries a confidence that is a
  float, a bool or an int of magnitude below \<open>2 ^ 1024 - 2 ^ 970\<close> (the ints that convert
  to a float), \<open>parse_faces\<close> returns one face for each entry whose identity is not the
  string \<open>"unknown"\<close>, in the order of the input, each with the identity of its entry as
  its name; on the empty list it returns the empty list.
\<close>

theorem parse_faces_drops_unknown:
  assumes "\<forall>e\<in>set predictions. e USERID \<noteq> None"
    and "\<forall>e\<in>set predictions. e USERID \<noteq> Some UNKNOWN \<longrightarrow> numeric_confidence e"
  shows "(\<exists>fs. parse_faces predictions = Inr fs
           \<and> list_all2 emits (filter (\<lambda>e. e USERID \<noteq> Some UNKNOWN) predictions) fs
           \<and> map (\<lambda>f. f NAME) fs
               = map (\<lambda>e. e USERID) (filter (\<lambda>e. e USERID \<noteq> Some UNKNOWN) predictions))
         \<and> parse_faces [] = Inr []"
proof -
  have "\<forall>e\<in>set predictions. e USERID \<noteq> Some UNKNOWN \<longrightarrow> has_confidence e"
    using assms(2) numeric_has_confidence by blast
  then obtain fs where fs: "parse_faces predictions = Inr fs"
    using parse_faces_loop_total[OF assms(1), of "[]"] by (auto simp: parse_faces_def)
  then have "list_all2 emits (retained predictions) fs"
    using parse_faces_loop_retained[of "[]" predictions fs] by (simp add: parse_faces_def)
  then have e: "list_all2 emits (filter (\<lambda>e. e USERID \<noteq> Some UNKNOWN) predictions) fs"
    using retained_all_named[OF assms(1)] by simp
  show ?thesis using fs e list_all2_emits_names[OF e] by (simp add: parse_faces_def)
qed

theorem parse_faces_drops_unknown_witness:
  "(\<exists>fs. parse_faces [stranger, alice, carol] = Inr fs
      \<and> list_all2 emits (filter (\<lambda>e. e USERID \<noteq> Some UNKNOWN) [stranger, alice, carol]) fs
      \<and> map (\<lambda>f. f NAME) fs
          = map (\<lambda>e. e USERID) (filter (\<lambda>e. e USERID \<noteq> Some UNKNOWN) [stranger, alice, carol]))
   \<and> parse_faces [] = Inr []"
proof -
  have h1: "\<forall>e\<in>set [stranger, alice, carol]. e USERID \<noteq> None"
    by (simp add: stranger_def alice_def carol_def)
  have h2: "\<forall>e\<in>set [stranger, alice, carol]. e USERID \<noteq> Some UNKNOWN \<longrightarrow> numeric_confidence e"
    using key_distinct
    by (simp add: stranger_def alice_def carol_def numeric_confidence_def)
  show ?thesis using parse_faces_drops_unknown[OF h1 h2] .
qed



section \<open>Properties of \<open>get_valid_filename\<close>\<close>

text \<open>
  Claim C6, as stated, fails: of the string that is a space followed by \<open>a\<close> the
  sanitizer returns \<open>a\<close>, while replacing spaces by underscores and then removing the
  characters that are not allowed gives \<open>_a\<close>.
\<close>

theorem get_valid_filename_leading_space:
  "get_valid_filename (\<lambda>_. False) (ascii '' a'') = ascii ''a''
   \<and> sanitize_spec (\<lambda>_. False) (ascii '' a'') = ascii ''_a''
   \<and> get_valid_filename (\<lambda>_. False) (ascii '' a'') \<noteq> sanitize_spec (\<lambda>_. False) (ascii '' a'')"
  by (simp add: get_valid_filename_def sanitize_spec_def strip_example)
     (simp add: ascii_def replace_space_def kept_def is_word_def ascii_alnum_def)

text \<open>
  Claim C6, amended: for every input string, the sanitizer first strips the leading and
  trailing whitespace, then replaces spaces with underscores, and then removes every
  character that is not a word character, a hyphen or a dot; the output never contains a
  character outside word characters, hyphens, dots and underscores; the input
  \<open>"John Doe!"\<close> yields \<open>"John_Doe"\<close>.
\<close>

theorem get_valid_filename_strips_first:
  "get_valid_filename alnum s = sanitize_spec alnum (strip s)
   \<and> (\<forall>c\<in>set (get_valid_filename alnum s). is_word alnum c \<or> c = 45 \<or> c = 46 \<or> c = 95)
   \<and> get_valid_filename alnum (ascii ''John Doe!'') = ascii ''John_Doe''"
proof -
  have "strip (ascii ''John Doe!'') = ascii ''John Doe!''"
    by (simp add: strip_def ascii_def is_space_def)
  then have "get_valid_filename alnum (ascii ''John Doe!'') = ascii ''John_Doe''"
    by (simp add: get_valid_filename_def)
       (simp add: ascii_def replace_space_def kept_def is_word_def ascii_alnum_def)
  then show ?thesis
    by (auto simp: get_valid_filename_def sanitize_spec_def kept_def)
qed

theorem get_valid_filename_strips_first_witness:
  "get_valid_filename (\<lambda>_. False) (ascii '' a.b-c '') = sanitize_spec (\<lambda>_. False) (strip (ascii '' a.b-c ''))
   \<and> list_all (\<lambda>c. is_word (\<lambda>_. False) c \<or> c = 45 \<or> c = 46 \<or> c = 95)
        (get_valid_filename (\<lambda>_. False) (ascii '' a.b-c ''))
   \<and> get_valid_filename (\<lambda>_. False) (ascii ''John Doe!'') = ascii ''John_Doe''"
  using get_valid_filename_strips_first[of "\<lambda>_. False" "ascii '' a.b-c ''"] by (simp add: list_all_iff)

section \<open>Properties of the teach action\<close>




end
